theory Spec2Isabelle
  imports Main
begin

section \<open>JavaScript values and plain objects\<close>

text \<open>
  The function \<^verbatim>\<open>json2html(data)\<close> of \<^verbatim>\<open>src/json2html.js\<close> receives an array of flat
  objects. A property value is a primitive: \<^verbatim>\<open>undefined\<close>, \<^verbatim>\<open>null\<close>, a boolean, a
  number or a string. Property lookup on a plain object can also reach the members of
  \<^verbatim>\<open>Object.prototype\<close>: its built-in functions (\<open>JBuiltin\<close>, with the function's name)
  and, through the accessor \<^verbatim>\<open>__proto__\<close>, the prototype object itself
  (\<open>JObjectPrototype\<close>).

  A Number is a double. The only operations the function applies to a value are the
  truthiness test and the conversion to a string, and for a finite Number the language
  defines the latter from the Number's shortest decimal representation: the integers
  \<open>s\<close>, \<open>k\<close> and \<open>n\<close> with \<open>k \<ge> 1\<close>, \<open>10\<^bsup>k-1\<^esup> \<le> s < 10\<^bsup>k\<^esup>\<close>, such
  that \<open>s \<times> 10\<^bsup>n-k\<^esup>\<close> reads back as the Number and \<open>k\<close> is least. So a finite Number
  is given here by its sign, its significand \<open>s\<close> and its exponent \<open>n\<close>
  (\<open>JNum neg s n\<close>; \<open>k\<close> is the number of digits of \<open>s\<close>), and zero by \<open>s = 0\<close>:
  \<open>42\<close> is \<open>JNum False 42 2\<close>, \<open>100\<close> is \<open>JNum False 1 3\<close>, \<open>-0.5\<close> is \<open>JNum True 5 0\<close>,
  \<open>1e21\<close> is \<open>JNum False 1 22\<close>, \<open>1e-7\<close> is \<open>JNum False 1 (-6)\<close>, and \<open>2\<^sup>6\<^sup>4\<close> is
  \<open>JNum False 18446744073709552 20\<close>. The infinities and \<^verbatim>\<open>NaN\<close> are values of their
  own.
\<close>

datatype jsval =
    JUndefined
  | JNull
  | JBool bool
  | JNum bool nat int
  | JInfinity bool
  | JNaN
  | JStr string
  | JBuiltin string
  | JObjectPrototype

text \<open>
  A plain object is the list of its own enumerable string-keyed properties, in the order
  in which \<^verbatim>\<open>Object.keys\<close> enumerates them (the object's native key order: keys that
  are array indices first, ascending, then the other keys as they were created). The keys
  of an object are pairwise distinct; no fact below needs that, and lookup in a list that
  repeats a key takes its first entry.
\<close>

type_synonym jsobject = "(string \<times> jsval) list"

definition Object_keys :: "jsobject \<Rightarrow> string list" where
  "Object_keys obj = map fst obj"

text \<open>
  \<^verbatim>\<open>Object.prototype\<close> is a global object that programs can change. Its properties at
  the time of a call are a parameter \<open>P\<close> of everything that looks a property up;
  \<open>Object_prototype\<close> is its initial state, as the language defines it. An inherited
  property is never listed by \<^verbatim>\<open>Object.keys\<close>, but \<^verbatim>\<open>obj[key]\<close> finds it.
\<close>

definition Object_prototype :: "(string \<times> jsval) list" where
  "Object_prototype =
    [(''constructor'', JBuiltin ''Object''),
     (''__defineGetter__'', JBuiltin ''__defineGetter__''),
     (''__defineSetter__'', JBuiltin ''__defineSetter__''),
     (''hasOwnProperty'', JBuiltin ''hasOwnProperty''),
     (''__lookupGetter__'', JBuiltin ''__lookupGetter__''),
     (''__lookupSetter__'', JBuiltin ''__lookupSetter__''),
     (''isPrototypeOf'', JBuiltin ''isPrototypeOf''),
     (''propertyIsEnumerable'', JBuiltin ''propertyIsEnumerable''),
     (''toString'', JBuiltin ''toString''),
     (''valueOf'', JBuiltin ''valueOf''),
     (''__proto__'', JObjectPrototype),
     (''toLocaleString'', JBuiltin ''toLocaleString'')]"

text \<open>
  \<^verbatim>\<open>obj[key]\<close>: the own property if there is one, else the one inherited from
  \<^verbatim>\<open>Object.prototype\<close> as it is now, else \<^verbatim>\<open>undefined\<close>.
\<close>

definition Get :: "(string \<times> jsval) list \<Rightarrow> jsobject \<Rightarrow> string \<Rightarrow> jsval" where
  "Get P obj key =
    (case map_of obj key of
       Some v \<Rightarrow> v
     | None \<Rightarrow> (case map_of P key of Some v \<Rightarrow> v | None \<Rightarrow> JUndefined))"

text \<open>The truthiness test applied by \<^verbatim>\<open>||\<close>.\<close>

fun ToBoolean :: "jsval \<Rightarrow> bool" where
  "ToBoolean JUndefined = False"
| "ToBoolean JNull = False"
| "ToBoolean (JBool b) = b"
| "ToBoolean (JNum neg s n) = (s \<noteq> 0)"
| "ToBoolean (JInfinity neg) = True"
| "ToBoolean JNaN = False"
| "ToBoolean (JStr s) = (s \<noteq> [])"
| "ToBoolean (JBuiltin f) = True"
| "ToBoolean JObjectPrototype = True"

text \<open>The decimal digits of a natural number, most significant first.\<close>

definition digit_char :: "nat \<Rightarrow> char" where
  "digit_char d = ''0123456789'' ! d"

fun dec_digits :: "nat \<Rightarrow> string" where
  "dec_digits n = (if n < 10 then [digit_char n] else dec_digits (n div 10) @ [digit_char (n mod 10)])"

declare dec_digits.simps [simp del]

text \<open>
  The conversion of a nonzero finite Number to a string, from its significand \<open>s\<close> (with
  \<open>k\<close> digits) and exponent \<open>n\<close>, in the order of the cases of the language definition:
  the digits followed by \<open>n - k\<close> zeros when \<open>k \<le> n \<le> 21\<close>; the digits with a decimal
  point after the first \<open>n\<close> when \<open>0 < n \<le> 21\<close>; \<open>0.\<close>, \<open>-n\<close> zeros and the digits when
  \<open>-6 < n \<le> 0\<close>; else exponent notation, the first digit, the remaining digits after a
  point when there are any, \<open>e\<close>, the sign of \<open>n - 1\<close> and its decimal digits.
\<close>

definition Number_digits :: "nat \<Rightarrow> int \<Rightarrow> string" where
  "Number_digits s n =
    (let ds = dec_digits s; k = int (length ds) in
     if k \<le> n \<and> n \<le> 21 then ds @ replicate (nat (n - k)) CHR ''0''
     else if 0 < n \<and> n \<le> 21 then take (nat n) ds @ ''.'' @ drop (nat n) ds
     else if - 6 < n \<and> n \<le> 0 then ''0.'' @ replicate (nat (- n)) CHR ''0'' @ ds
     else (let e = n - 1; es = (if e < 0 then ''-'' else ''+'') @ dec_digits (nat \<bar>e\<bar>) in
           if k = 1 then ds @ ''e'' @ es else take 1 ds @ ''.'' @ drop 1 ds @ ''e'' @ es))"

definition Number_toString :: "bool \<Rightarrow> nat \<Rightarrow> int \<Rightarrow> string" where
  "Number_toString neg s n =
    (if s = 0 then ''0'' else (if neg then ''-'' else []) @ Number_digits s n)"

text \<open>
  The string conversion applied by a template literal. The text of a built-in function
  is the one V8 prints.
\<close>

fun ToString :: "jsval \<Rightarrow> string" where
  "ToString JUndefined = ''undefined''"
| "ToString JNull = ''null''"
| "ToString (JBool b) = (if b then ''true'' else ''false'')"
| "ToString (JNum neg s n) = Number_toString neg s n"
| "ToString (JInfinity neg) = (if neg then ''-Infinity'' else ''Infinity'')"
| "ToString JNaN = ''NaN''"
| "ToString (JStr s) = s"
| "ToString (JBuiltin f) = ''function '' @ f @ ''() { [native code] }''"
| "ToString JObjectPrototype = ''[object Object]''"

text \<open>
  The Number whose value is the integer \<open>i\<close>, for an integer that a double holds exactly
  with all its digits (\<open>\<bar>i\<bar> < 2\<^sup>5\<^sup>3\<close>): the significand is \<open>\<bar>i\<bar>\<close> without its trailing
  zeros, the exponent is the number of digits of \<open>\<bar>i\<bar>\<close>.
\<close>

fun strip10 :: "nat \<Rightarrow> nat" where
  "strip10 m = (if m \<noteq> 0 \<and> m mod 10 = 0 then strip10 (m div 10) else m)"

declare strip10.simps [simp del]

definition JInt :: "int \<Rightarrow> jsval" where
  "JInt i = JNum (i < 0) (strip10 (nat \<bar>i\<bar>)) (int (length (dec_digits (nat \<bar>i\<bar>))))"

section \<open>Array and Set operations\<close>

text \<open>\<^verbatim>\<open>xs.flatMap(f)\<close>: map, then flatten one level.\<close>

definition flatMap :: "('a \<Rightarrow> 'b list) \<Rightarrow> 'a list \<Rightarrow> 'b list" where
  "flatMap f xs = concat (map f xs)"

text \<open>
  \<^verbatim>\<open>new Set(xs)\<close> adds the elements one by one; a Set keeps insertion order and ignores
  an element it already holds. Spreading the Set into an array reads that order back, so
  the Set is modelled by the list of its elements in insertion order.
\<close>

definition Set_add :: "'a list \<Rightarrow> 'a \<Rightarrow> 'a list" where
  "Set_add s x = (if x \<in> set s then s else s @ [x])"

definition new_Set :: "'a list \<Rightarrow> 'a list" where
  "new_Set xs = foldl Set_add [] xs"

text \<open>
  \<^verbatim>\<open>xs.join(sep)\<close> on an array of strings: the empty string for the empty array, else
  the elements with the separator between neighbours.
\<close>

fun join :: "string list \<Rightarrow> string \<Rightarrow> string" where
  "join [] sep = []"
| "join [x] sep = x"
| "join (x # y # ys) sep = x @ sep @ join (y # ys) sep"

section \<open>The function json2html\<close>

definition table_open :: string where
  \<open>table_open = ''<table data-user="bingikarthik2014@gmail.com"><thead><tr>''\<close>

definition th_cell :: "string \<Rightarrow> string" where
  "th_cell header = ''<th>'' @ header @ ''</th>''"

text \<open>\<^verbatim>\<open>row[header] || ''\<close>: the looked-up value when truthy, else the empty string.\<close>

definition value_or_empty :: "(string \<times> jsval) list \<Rightarrow> jsobject \<Rightarrow> string \<Rightarrow> jsval" where
  "value_or_empty P row header = (if ToBoolean (Get P row header) then Get P row header else JStr [])"

definition td_cell :: "(string \<times> jsval) list \<Rightarrow> jsobject \<Rightarrow> string \<Rightarrow> string" where
  "td_cell P row header = ''<td>'' @ ToString (value_or_empty P row header) @ ''</td>''"

definition tr_row :: "(string \<times> jsval) list \<Rightarrow> string list \<Rightarrow> jsobject \<Rightarrow> string" where
  "tr_row P hs row = ''<tr>'' @ join (map (td_cell P row) hs) [] @ ''</tr>''"

text \<open>
  The body of the function is a sequence of statements over its argument \<open>data\<close> and its
  two local variables \<open>headers\<close> and \<open>html\<close>; the statement that builds the rows also
  reads the global \<^verbatim>\<open>Object.prototype\<close> (\<open>proto\<close>), through \<^verbatim>\<open>row[header]\<close>. Each
  statement is a transformer of this frame; whatever else exists is the extension part of
  the record.
\<close>

record frame =
  proto :: "(string \<times> jsval) list"
  data :: "jsobject list"
  headers :: "string list"
  html :: string

definition stmt_headers :: "'a frame_scheme \<Rightarrow> 'a frame_scheme" where
  "stmt_headers s = s\<lparr>headers := new_Set (flatMap Object_keys (data s))\<rparr>"

definition stmt_open :: "'a frame_scheme \<Rightarrow> 'a frame_scheme" where
  "stmt_open s = s\<lparr>html := table_open\<rparr>"

definition stmt_th :: "'a frame_scheme \<Rightarrow> 'a frame_scheme" where
  "stmt_th s = s\<lparr>html := html s @ join (map th_cell (headers s)) []\<rparr>"

definition stmt_tbody :: "'a frame_scheme \<Rightarrow> 'a frame_scheme" where
  "stmt_tbody s = s\<lparr>html := html s @ ''</tr></thead><tbody>''\<rparr>"

definition stmt_rows :: "'a frame_scheme \<Rightarrow> 'a frame_scheme" where
  "stmt_rows s = s\<lparr>html := html s @ join (map (tr_row (proto s) (headers s)) (data s)) []\<rparr>"

definition stmt_close :: "'a frame_scheme \<Rightarrow> 'a frame_scheme" where
  "stmt_close s = s\<lparr>html := html s @ ''</tbody></table>''\<rparr>"

definition json2html_body :: "'a frame_scheme \<Rightarrow> 'a frame_scheme" where
  "json2html_body s =
     stmt_close (stmt_rows (stmt_tbody (stmt_th (stmt_open (stmt_headers s)))))"

text \<open>
  A call, made when \<^verbatim>\<open>Object.prototype\<close> has the properties \<open>P\<close>, binds the argument,
  runs the body and returns \<open>html\<close>.
\<close>

definition json2html :: "(string \<times> jsval) list \<Rightarrow> jsobject list \<Rightarrow> string" where
  "json2html P d = html (json2html_body \<lparr>proto = P, data = d, headers = [], html = []\<rparr>)"

text \<open>
  The header sequence that a call on \<open>d\<close> computes (the first statement does not read the
  prototype).
\<close>

definition headers_of :: "jsobject list \<Rightarrow> string list" where
  "headers_of d = headers (stmt_headers \<lparr>proto = [], data = d, headers = [], html = []\<rparr>)"

section \<open>Notions used to state the properties\<close>

text \<open>
  The position at which \<open>x\<close> is first seen in a scan \<open>xs\<close> (the length of \<open>xs\<close> when it
  never is).
\<close>

definition first_index :: "'a list \<Rightarrow> 'a \<Rightarrow> nat" where
  "first_index xs x = length (takeWhile (\<lambda>y. y \<noteq> x) xs)"

text \<open>
  The number that a string of decimal digits denotes, read from the most significant
  digit.
\<close>

definition digits_value :: "string \<Rightarrow> nat" where
  "digits_value s = foldl (\<lambda>a c. 10 * a + (of_char c - 48)) 0 s"

text \<open>
  The number of characters after the decimal point of a numeral (none when it has no
  point). A numeral whose digits, the point left out, denote \<open>m\<close> and which has \<open>f\<close>
  such characters denotes \<open>m / 10\<^bsup>f\<^esup>\<close>.
\<close>

definition fraction_places :: "string \<Rightarrow> nat" where
  "fraction_places str = length (tl (dropWhile (\<lambda>c. c \<noteq> CHR ''.'') str))"

text \<open>The number of positions of \<open>s\<close> at which the non-empty pattern \<open>p\<close> starts.\<close>

fun count_sub :: "'a list \<Rightarrow> 'a list \<Rightarrow> nat" where
  "count_sub p [] = 0"
| "count_sub p (c # cs) = (if take (length p) (c # cs) = p then 1 else 0) + count_sub p cs"

section \<open>Basic facts\<close>

lemma join_empty_sep: "join xs [] = concat xs"
  by (induction xs "[]::string" rule: join.induct) simp_all

lemma headers_of_eq: "headers_of d = new_Set (flatMap Object_keys d)"
  by (simp add: headers_of_def stmt_headers_def)

lemmas stmt_defs =
  stmt_headers_def stmt_open_def stmt_th_def stmt_tbody_def stmt_rows_def stmt_close_def

lemma html_body:
  "html (json2html_body s) =
     table_open @ concat (map th_cell (new_Set (flatMap Object_keys (data s))))
       @ ''</tr></thead><tbody>''
       @ concat (map (tr_row (proto s) (new_Set (flatMap Object_keys (data s)))) (data s))
       @ ''</tbody></table>''"
  by (simp add: json2html_body_def stmt_defs join_empty_sep)

lemma json2html_eq:
  "json2html P d =
     table_open @ concat (map th_cell (headers_of d)) @ ''</tr></thead><tbody>''
       @ concat (map (tr_row P (headers_of d)) d) @ ''</tbody></table>''"
  by (simp add: json2html_def html_body headers_of_eq)

subsection \<open>The Set keeps first occurrences, in order\<close>

lemma new_Set_Nil: "new_Set [] = []"
  by (simp add: new_Set_def)

lemma new_Set_snoc: "new_Set (xs @ [x]) = Set_add (new_Set xs) x"
  by (simp add: new_Set_def)

lemma set_new_Set: "set (new_Set xs) = set xs"
  by (induction xs rule: rev_induct) (auto simp: new_Set_Nil new_Set_snoc Set_add_def)

lemma distinct_new_Set: "distinct (new_Set xs)"
  by (induction xs rule: rev_induct) (auto simp: new_Set_Nil new_Set_snoc Set_add_def)

lemma first_index_less: "x \<in> set xs \<Longrightarrow> first_index xs x < length xs"
  by (induction xs) (auto simp: first_index_def)

lemma first_index_snoc_old: "a \<in> set xs \<Longrightarrow> first_index (xs @ [x]) a = first_index xs a"
  unfolding first_index_def by (simp add: takeWhile_append1)

lemma first_index_snoc_new: "x \<notin> set xs \<Longrightarrow> first_index (xs @ [x]) x = length xs"
  by (induction xs) (auto simp: first_index_def)

lemma sorted_wrt_first_index_snoc:
  assumes "sorted_wrt (\<lambda>a b. first_index xs a < first_index xs b) hs" "set hs \<subseteq> set xs"
  shows "sorted_wrt (\<lambda>a b. first_index (xs @ [x]) a < first_index (xs @ [x]) b) hs"
proof (rule sorted_wrt_mono_rel[OF _ assms(1)])
  fix a b
  assume "a \<in> set hs" "b \<in> set hs" "first_index xs a < first_index xs b"
  with assms(2) show "first_index (xs @ [x]) a < first_index (xs @ [x]) b"
    by (simp add: first_index_snoc_old subsetD)
qed

lemma new_Set_first_seen:
  "sorted_wrt (\<lambda>a b. first_index xs a < first_index xs b) (new_Set xs)"
proof (induction xs rule: rev_induct)
  case Nil
  show ?case by (simp add: new_Set_Nil)
next
  case (snoc x xs)
  have old: "sorted_wrt (\<lambda>a b. first_index (xs @ [x]) a < first_index (xs @ [x]) b) (new_Set xs)"
    using snoc by (rule sorted_wrt_first_index_snoc) (simp add: set_new_Set)
  show ?case
  proof (cases "x \<in> set xs")
    case True
    with old show ?thesis by (simp add: new_Set_snoc Set_add_def set_new_Set)
  next
    case False
    have "\<forall>a\<in>set (new_Set xs). first_index (xs @ [x]) a < first_index (xs @ [x]) x"
      using False
      by (auto simp: set_new_Set first_index_snoc_old first_index_snoc_new first_index_less)
    with old False show ?thesis
      by (simp add: new_Set_snoc Set_add_def set_new_Set sorted_wrt_append)
  qed
qed

lemma count_list_distinct: "distinct xs \<Longrightarrow> x \<in> set xs \<Longrightarrow> count_list xs x = 1"
  by (induction xs) auto

lemma scan_keys: "flatMap Object_keys d = concat (map (map fst) d)"
  by (simp add: flatMap_def Object_keys_def cong: map_cong)

lemma headers_eval: "headers_of d = foldl Set_add [] (concat (map (map fst) d))"
  by (simp add: headers_of_eq new_Set_def scan_keys)

lemma tr_row_fun:
  "tr_row P hs = (\<lambda>row. ''<tr>'' @ concat (map (td_cell P row) hs) @ ''</tr>'')"
  by (rule ext) (simp add: tr_row_def join_empty_sep)

lemma concat_map_split:
  "xs = as @ x # bs \<Longrightarrow> concat (map f xs) = concat (map f as) @ f x @ concat (map f bs)"
  by simp

lemma key_in_headers: "row \<in> set d \<Longrightarrow> k \<in> set (Object_keys row) \<Longrightarrow> k \<in> set (headers_of d)"
  by (auto simp: headers_of_eq set_new_Set flatMap_def)

lemma map_of_key: "map_of row k = Some v \<Longrightarrow> k \<in> set (Object_keys row)"
  by (auto simp: Object_keys_def dest: map_of_SomeD intro: rev_image_eqI)

lemma headers_of_cong: "map (map fst) d' = map (map fst) d \<Longrightarrow> headers_of d' = headers_of d"
  by (simp add: headers_eval)

subsection \<open>Decimal digits\<close>

lemma digit_cases: "d < 10 \<Longrightarrow> d \<in> {0, 1, 2, 3, 4, 5, 6, 7, 8, 9 :: nat}"
  by auto

lemma of_char_digit_char: "d < 10 \<Longrightarrow> of_char (digit_char d) = (48 + d :: nat)"
  by (drule digit_cases) (auto simp: digit_char_def)

lemma digit_char_in: "d < 10 \<Longrightarrow> digit_char d \<in> set ''0123456789''"
  unfolding digit_char_def by (rule nth_mem) simp

lemma digits_value_snoc: "digits_value (s @ [c]) = 10 * digits_value s + (of_char c - 48)"
  by (simp add: digits_value_def)

lemma digits_value_dec_digits: "digits_value (dec_digits n) = n"
proof (induction n rule: dec_digits.induct)
  case (1 n)
  show ?case
  proof (cases "n < 10")
    case True
    then show ?thesis
      by (simp add: dec_digits.simps [of n] digits_value_def of_char_digit_char)
  next
    case False
    with 1 show ?thesis
      by (simp add: dec_digits.simps [of n] digits_value_snoc of_char_digit_char)
  qed
qed

lemma dec_digits_chars: "set (dec_digits n) \<subseteq> set ''0123456789''"
proof (induction n rule: dec_digits.induct)
  case (1 n)
  show ?case
  proof (cases "n < 10")
    case True
    then show ?thesis
      using digit_char_in [of n] by (simp add: dec_digits.simps [of n])
  next
    case False
    with 1 show ?thesis
      using digit_char_in [of "n mod 10"] by (simp add: dec_digits.simps [of n])
  qed
qed

lemma dec_digits_nonempty: "dec_digits n \<noteq> []"
  by (subst dec_digits.simps) simp

lemma Number_digits_nonempty: "Number_digits s n \<noteq> []"
  by (simp add: Number_digits_def Let_def dec_digits_nonempty)

lemma ToString_truthy_nonempty: "ToBoolean v \<Longrightarrow> ToString v \<noteq> []"
  by (cases v) (simp_all add: Number_toString_def Number_digits_nonempty)

subsection \<open>Numbers as strings\<close>

lemma digit_char_0: "digit_char 0 = CHR ''0''"
  by (simp add: digit_char_def)

lemma dec_digits_times10: "0 < m \<Longrightarrow> dec_digits (m * 10) = dec_digits m @ ''0''"
  by (subst dec_digits.simps) (simp add: digit_char_0)

lemma strip10_step: "m \<noteq> 0 \<Longrightarrow> m mod 10 = 0 \<Longrightarrow> strip10 m = strip10 (m div 10)"
  by (subst strip10.simps) simp

lemma strip10_stop: "\<not> (m \<noteq> 0 \<and> m mod 10 = 0) \<Longrightarrow> strip10 m = m"
  by (subst strip10.simps) (simp only: if_False)

lemma dec_digits_strip10: "\<exists>z. dec_digits m = dec_digits (strip10 m) @ replicate z CHR ''0''"
proof (induction m rule: strip10.induct)
  case (1 m)
  show ?case
  proof (cases "m \<noteq> 0 \<and> m mod 10 = 0")
    case True
    then have m: "m = (m div 10) * 10" "0 < m div 10" by auto
    from 1 True obtain z where z: "dec_digits (m div 10) = dec_digits (strip10 (m div 10)) @ replicate z CHR ''0''"
      by blast
    have "dec_digits m = dec_digits (m div 10) @ ''0''"
      using dec_digits_times10 [OF m(2)] m(1) by simp
    also have "\<dots> = dec_digits (strip10 m) @ replicate (Suc z) CHR ''0''"
      using z True by (simp add: strip10_step replicate_append_same)
    finally show ?thesis by blast
  next
    case False
    then have "strip10 m = m" by (rule strip10_stop)
    then have "dec_digits m = dec_digits (strip10 m) @ replicate 0 CHR ''0''" by simp
    then show ?thesis by blast
  qed
qed

lemma strip10_pos: "0 < m \<Longrightarrow> 0 < strip10 m"
proof (induction m rule: strip10.induct)
  case (1 m)
  show ?case
  proof (cases "m \<noteq> 0 \<and> m mod 10 = 0")
    case True
    then have "0 < m div 10" by auto
    with 1 True show ?thesis by (simp add: strip10_step)
  next
    case False
    with 1 show ?thesis by (simp add: strip10_stop)
  qed
qed

lemma length_dec_digits_le: "m < 10 ^ j \<Longrightarrow> 0 < j \<Longrightarrow> length (dec_digits m) \<le> j"
proof (induction m arbitrary: j rule: dec_digits.induct)
  case (1 m)
  show ?case
  proof (cases "m < 10")
    case True
    with 1 show ?thesis by (simp add: dec_digits.simps [of m])
  next
    case False
    obtain j' where j: "j = Suc j'" using "1.prems"(2) by (cases j) auto
    have "j' \<noteq> 0" using False "1.prems"(1) j by (cases j') auto
    moreover have "m div 10 < 10 ^ j'" using "1.prems"(1) j by (simp add: less_mult_imp_div_less mult.commute)
    ultimately have "length (dec_digits (m div 10)) \<le> j'"
      using "1.IH" False by simp
    then show ?thesis using False j by (simp add: dec_digits.simps [of m])
  qed
qed

lemma Number_digits_integer:
  assumes "0 < m" "m < 10 ^ 21"
  shows "Number_digits (strip10 m) (int (length (dec_digits m))) = dec_digits m"
proof -
  obtain z where z: "dec_digits m = dec_digits (strip10 m) @ replicate z CHR ''0''"
    using dec_digits_strip10 by blast
  then have len: "length (dec_digits m) = length (dec_digits (strip10 m)) + z"
    by (metis length_append length_replicate)
  have "length (dec_digits m) \<le> 21"
    using assms(2) by (rule length_dec_digits_le) simp
  with len z show ?thesis
    by (simp add: Number_digits_def Let_def)
qed

lemma ToString_JInt:
  assumes "i \<noteq> 0" "\<bar>i\<bar> < 2 ^ 53"
  shows "ToString (JInt i) = (if i < 0 then ''-'' else []) @ dec_digits (nat \<bar>i\<bar>)"
proof -
  have pos: "0 < nat \<bar>i\<bar>" using assms(1) by simp
  have "\<bar>i\<bar> < 10 ^ 21" using assms(2) by simp
  then have "nat \<bar>i\<bar> < 10 ^ 21"
    by (metis nat_less_iff abs_ge_zero of_nat_numeral of_nat_power)
  with pos have "Number_digits (strip10 (nat \<bar>i\<bar>)) (int (length (dec_digits (nat \<bar>i\<bar>)))) = dec_digits (nat \<bar>i\<bar>)"
    by (rule Number_digits_integer)
  moreover have "strip10 (nat \<bar>i\<bar>) \<noteq> 0" using strip10_pos [OF pos] by simp
  ultimately show ?thesis
    by (simp add: JInt_def Number_toString_def)
qed

lemma ToBoolean_JInt: "ToBoolean (JInt i) = (i \<noteq> 0)"
proof (cases "i = 0")
  case True
  then show ?thesis by (simp add: JInt_def strip10_stop)
next
  case False
  then have "0 < nat \<bar>i\<bar>" by simp
  from strip10_pos [OF this] False show ?thesis by (simp add: JInt_def)
qed

lemma dec_digits_no_leading_zero: "0 < m \<Longrightarrow> hd (dec_digits m) \<noteq> CHR ''0''"
proof (induction m rule: dec_digits.induct)
  case (1 m)
  show ?case
  proof (cases "m < 10")
    case True
    with 1 have "m \<in> {1, 2, 3, 4, 5, 6, 7, 8, 9}" by auto
    then show ?thesis by (auto simp: dec_digits.simps [of m] digit_char_def)
  next
    case False
    then have "0 < m div 10" by simp
    with 1 False have "hd (dec_digits (m div 10)) \<noteq> CHR ''0''" by simp
    then show ?thesis using False
      by (simp add: dec_digits.simps [of m] dec_digits_nonempty)
  qed
qed

lemma digits_value_append:
  "digits_value (a @ b) = digits_value a * 10 ^ length b + digits_value b"
proof (induction b rule: rev_induct)
  case Nil
  show ?case by (simp add: digits_value_def)
next
  case (snoc c b)
  have "digits_value (a @ b @ [c]) = 10 * digits_value (a @ b) + (of_char c - 48)"
    using digits_value_snoc [of "a @ b" c] by simp
  then show ?case
    using snoc by (simp add: digits_value_snoc algebra_simps)
qed

lemma digits_value_zeros: "digits_value (replicate z CHR ''0'') = 0"
  by (induction z) (simp_all add: digits_value_def)

lemma digits_value_leading_zeros: "digits_value (replicate z CHR ''0'' @ b) = digits_value b"
  by (simp add: digits_value_append digits_value_zeros)

lemma dec_digits_no_point: "CHR ''.'' \<notin> set (dec_digits s)" "CHR ''e'' \<notin> set (dec_digits s)"
  using dec_digits_chars [of s] by auto

lemma filter_no_point: "CHR ''.'' \<notin> set xs \<Longrightarrow> filter (\<lambda>c. c \<noteq> CHR ''.'') xs = xs"
  by (induction xs) auto

lemma dropWhile_no_point: "CHR ''.'' \<notin> set xs \<Longrightarrow> dropWhile (\<lambda>c. c \<noteq> CHR ''.'') (xs @ ys) = dropWhile (\<lambda>c. c \<noteq> CHR ''.'') ys"
  by (induction xs) auto

lemma Number_digits_plain:
  assumes "- 6 < n" "n \<le> 21"
  shows "CHR ''e'' \<notin> set (Number_digits s n)"
    and "set (filter (\<lambda>c. c \<noteq> CHR ''.'') (Number_digits s n)) \<subseteq> set ''0123456789''"
    and "digits_value (filter (\<lambda>c. c \<noteq> CHR ''.'') (Number_digits s n))
           = s * 10 ^ nat (n - int (length (dec_digits s)))"
    and "fraction_places (Number_digits s n) = nat (int (length (dec_digits s)) - n)"
proof -
  let ?ds = "dec_digits s"
  let ?k = "int (length ?ds)"
  have np: "CHR ''.'' \<notin> set ?ds" and ne: "CHR ''e'' \<notin> set ?ds" and dg: "set ?ds \<subseteq> set ''0123456789''"
    by (rule dec_digits_no_point dec_digits_chars)+
  have npt: "CHR ''.'' \<notin> set (take m ?ds)" "CHR ''.'' \<notin> set (drop m ?ds)"
    "CHR ''e'' \<notin> set (take m ?ds)" "CHR ''e'' \<notin> set (drop m ?ds)" for m
    using np ne by (auto dest: in_set_takeD in_set_dropD)
  have kpos: "0 < ?k"
    using dec_digits_nonempty [of s] by simp
  consider (int) "?k \<le> n" | (frac) "0 < n" "n < ?k" | (small) "n \<le> 0"
    by linarith
  then have "CHR ''e'' \<notin> set (Number_digits s n)
    \<and> set (filter (\<lambda>c. c \<noteq> CHR ''.'') (Number_digits s n)) \<subseteq> set ''0123456789''
    \<and> digits_value (filter (\<lambda>c. c \<noteq> CHR ''.'') (Number_digits s n)) = s * 10 ^ nat (n - ?k)
    \<and> fraction_places (Number_digits s n) = nat (?k - n)"
  proof cases
    case int
    then have eq: "Number_digits s n = ?ds @ replicate (nat (n - ?k)) CHR ''0''"
      using assms by (simp add: Number_digits_def Let_def)
    have no: "CHR ''.'' \<notin> set (Number_digits s n)"
      unfolding eq using np by auto
    have dw: "dropWhile (\<lambda>c. c \<noteq> CHR ''.'') (Number_digits s n) = []"
      using no by (auto simp: dropWhile_eq_Nil_conv)
    have "fraction_places (Number_digits s n) = 0"
      unfolding fraction_places_def dw by simp
    moreover have "filter (\<lambda>c. c \<noteq> CHR ''.'') (Number_digits s n) = Number_digits s n"
      using no by (rule filter_no_point)
    moreover have "digits_value (Number_digits s n) = s * 10 ^ nat (n - ?k)"
      unfolding eq by (simp add: digits_value_append digits_value_zeros digits_value_dec_digits)
    moreover have "set (Number_digits s n) \<subseteq> set ''0123456789''"
      unfolding eq using dg by auto
    moreover have "CHR ''e'' \<notin> set (Number_digits s n)"
      unfolding eq using ne by auto
    ultimately show ?thesis using int by simp
  next
    case frac
    then have eq: "Number_digits s n = take (nat n) ?ds @ CHR ''.'' # drop (nat n) ?ds"
      using assms by (simp add: Number_digits_def Let_def)
    have "filter (\<lambda>c. c \<noteq> CHR ''.'') (Number_digits s n) = ?ds"
      unfolding eq using npt [of "nat n"] by (simp add: filter_no_point)
    moreover have dw: "dropWhile (\<lambda>c. c \<noteq> CHR ''.'') (Number_digits s n) = CHR ''.'' # drop (nat n) ?ds"
      unfolding eq using npt(1) [of "nat n"] by (simp add: dropWhile_no_point)
    have "fraction_places (Number_digits s n) = nat (?k - n)"
      unfolding fraction_places_def dw using frac by (simp add: nat_diff_distrib)
    moreover have "CHR ''e'' \<notin> set (Number_digits s n)"
      unfolding eq using npt [of "nat n"] by simp
    ultimately show ?thesis using frac dg by (simp add: digits_value_dec_digits)
  next
    case small
    have "1 \<le> length ?ds"
      using dec_digits_nonempty [of s] by (cases ?ds) simp_all
    with small have nk: "\<not> ?k \<le> n" "n < ?k" by linarith+
    from small have eq: "Number_digits s n = CHR ''0'' # CHR ''.'' # replicate (nat (- n)) CHR ''0'' @ ?ds"
      using assms nk(1) by (simp add: Number_digits_def Let_def)
    have f: "filter (\<lambda>c. c \<noteq> CHR ''.'') (Number_digits s n) = replicate (Suc (nat (- n))) CHR ''0'' @ ?ds"
      unfolding eq using np by (simp add: filter_no_point)
    have "digits_value (filter (\<lambda>c. c \<noteq> CHR ''.'') (Number_digits s n)) = s"
      unfolding f by (simp only: digits_value_leading_zeros digits_value_dec_digits)
    moreover have "set (filter (\<lambda>c. c \<noteq> CHR ''.'') (Number_digits s n)) \<subseteq> set ''0123456789''"
      unfolding f using dg by auto
    moreover have "fraction_places (Number_digits s n) = nat (?k - n)"
      unfolding eq using small nk by (simp add: fraction_places_def nat_diff_distrib nat_add_distrib)
    moreover have "CHR ''e'' \<notin> set (Number_digits s n)"
      unfolding eq using ne by auto
    ultimately show ?thesis using small nk by simp
  qed
  then show "CHR ''e'' \<notin> set (Number_digits s n)"
    and "set (filter (\<lambda>c. c \<noteq> CHR ''.'') (Number_digits s n)) \<subseteq> set ''0123456789''"
    and "digits_value (filter (\<lambda>c. c \<noteq> CHR ''.'') (Number_digits s n))
           = s * 10 ^ nat (n - int (length (dec_digits s)))"
    and "fraction_places (Number_digits s n) = nat (int (length (dec_digits s)) - n)"
    by blast+
qed

lemma Number_digits_exponent_form:
  assumes "\<not> (- 6 < n \<and> n \<le> 21)"
  shows "Number_digits s n =
      take 1 (dec_digits s)
      @ (if length (dec_digits s) = 1 then [] else ''.'' @ drop 1 (dec_digits s))
      @ ''e'' @ (if n < 1 then ''-'' else ''+'') @ dec_digits (nat \<bar>n - 1\<bar>)"
proof -
  have "1 \<le> length (dec_digits s)"
    using dec_digits_nonempty [of s] by (cases "dec_digits s") simp_all
  with assms show ?thesis
    by (auto simp: Number_digits_def Let_def)
qed

lemma Number_digits_exponent:
  assumes "\<not> (- 6 < n \<and> n \<le> 21)"
  shows "CHR ''e'' \<in> set (Number_digits s n)"
  using assms by (auto simp: Number_digits_def Let_def)

lemma Number_digits_leading:
  "0 < n \<Longrightarrow> s \<noteq> 0 \<Longrightarrow> hd (Number_digits s n) \<noteq> CHR ''0''"
  "- 6 < n \<Longrightarrow> n \<le> 0 \<Longrightarrow> take 2 (Number_digits s n) = ''0.''"
proof -
  have len: "1 \<le> length (dec_digits s)"
    using dec_digits_nonempty [of s] by (cases "dec_digits s") simp_all
  {
    assume n: "0 < n" and s: "s \<noteq> 0"
    have h: "hd (dec_digits s) \<noteq> CHR ''0''"
      using s by (intro dec_digits_no_leading_zero) simp
    have "hd (Number_digits s n) = hd (dec_digits s)"
      using n len dec_digits_nonempty [of s]
      by (auto simp: Number_digits_def Let_def hd_append take_eq_Nil)
    with h show "hd (Number_digits s n) \<noteq> CHR ''0''" by simp
  }
  {
    assume "- 6 < n" "n \<le> 0"
    moreover from this len have "\<not> int (length (dec_digits s)) \<le> n" by linarith
    ultimately show "take 2 (Number_digits s n) = ''0.''"
      by (simp add: Number_digits_def Let_def)
  }
qed

subsection \<open>Property lookup and cells\<close>

lemma Get_own: "map_of row h = Some v \<Longrightarrow> Get P row h = v"
  by (simp add: Get_def)

lemma Get_plain: "map_of P h = None \<Longrightarrow>
  Get P row h = (case map_of row h of Some v \<Rightarrow> v | None \<Rightarrow> JUndefined)"
  by (simp add: Get_def split: option.splits)

lemma td_cell_own_truthy:
  "map_of row h = Some v \<Longrightarrow> ToBoolean v \<Longrightarrow> td_cell P row h = ''<td>'' @ ToString v @ ''</td>''"
  by (simp add: td_cell_def value_or_empty_def Get_own)

lemma td_cell_own_falsy:
  "map_of row h = Some v \<Longrightarrow> \<not> ToBoolean v \<Longrightarrow> td_cell P row h = ''<td></td>''"
  by (simp add: td_cell_def value_or_empty_def Get_own)

lemma td_cell_absent_plain:
  "map_of row h = None \<Longrightarrow> map_of P h = None \<Longrightarrow> td_cell P row h = ''<td></td>''"
  by (simp add: td_cell_def value_or_empty_def Get_plain)

lemma td_cell_cong: "map_of r' h = map_of r h \<Longrightarrow> td_cell P r' h = td_cell P r h"
  by (simp add: td_cell_def value_or_empty_def Get_def)

lemma tr_row_cong: "\<forall>h. map_of r' h = map_of r h \<Longrightarrow> tr_row P hs r' = tr_row P hs r"
proof -
  assume "\<forall>h. map_of r' h = map_of r h"
  then have "td_cell P r' = td_cell P r"
    by (intro ext td_cell_cong) simp
  then show ?thesis by (simp add: tr_row_fun)
qed

subsection \<open>Where a header and a cell stand in the output\<close>

lemma th_in_output:
  assumes "k \<in> set (headers_of d)"
  shows "\<exists>pre suf. json2html P d = pre @ ''<th>'' @ k @ ''</th>'' @ suf"
proof -
  from assms obtain hs1 hs2 where "headers_of d = hs1 @ k # hs2"
    by (auto dest: split_list)
  then have "json2html P d = (table_open @ concat (map th_cell hs1)) @ ''<th>'' @ k @ ''</th>''
      @ (concat (map th_cell hs2) @ ''</tr></thead><tbody>''
          @ concat (map (tr_row P (headers_of d)) d) @ ''</tbody></table>'')"
    by (simp add: json2html_eq th_cell_def)
  then show ?thesis by blast
qed

lemma td_in_output:
  assumes "row \<in> set d" "k \<in> set (headers_of d)"
  shows "\<exists>pre suf. json2html P d = pre @ td_cell P row k @ suf"
proof -
  from assms(2) obtain hs1 hs2 where hs: "headers_of d = hs1 @ k # hs2"
    by (auto dest: split_list)
  from assms(1) obtain d1 d2 where d: "d = d1 @ row # d2"
    by (auto dest: split_list)
  have "tr_row P (headers_of d) row = (''<tr>'' @ concat (map (td_cell P row) hs1)) @ td_cell P row k
      @ (concat (map (td_cell P row) hs2) @ ''</tr>'')"
    by (simp add: tr_row_def join_empty_sep hs)
  moreover have "concat (map (tr_row P (headers_of d)) d) =
      concat (map (tr_row P (headers_of d)) d1) @ tr_row P (headers_of d) row
       @ concat (map (tr_row P (headers_of d)) d2)"
    using d by (rule concat_map_split)
  ultimately have "json2html P d =
     (table_open @ concat (map th_cell (headers_of d)) @ ''</tr></thead><tbody>''
       @ concat (map (tr_row P (headers_of d)) d1) @ ''<tr>'' @ concat (map (td_cell P row) hs1))
     @ td_cell P row k
     @ (concat (map (td_cell P row) hs2) @ ''</tr>''
        @ concat (map (tr_row P (headers_of d)) d2) @ ''</tbody></table>'')"
    by (simp add: json2html_eq)
  then show ?thesis by blast
qed

subsection \<open>Counting the cells of a row in its text\<close>

text \<open>
  An occurrence of \<open><td>\<close> cannot begin in a cell's text and end in the \<open></td>\<close> that
  follows it, so the occurrences in a row are those that open its cells and those inside
  the cell texts.
\<close>

lemma take_td_close:
  "(take (length ''<td>'') (c # t @ CHR ''<'' # CHR ''/'' # u) = ''<td>'')
     = (take (length ''<td>'') (c # t) = ''<td>'')"
proof (cases t)
  case Nil
  then show ?thesis by simp
next
  case t1: (Cons a1 t1)
  show ?thesis
  proof (cases t1)
    case Nil
    with t1 show ?thesis by simp
  next
    case t2: (Cons a2 t2)
    show ?thesis
    proof (cases t2)
      case Nil
      with t1 t2 show ?thesis by simp
    next
      case (Cons a3 t3)
      with t1 t2 show ?thesis by simp
    qed
  qed
qed

lemma count_td_before_close:
  "count_sub ''<td>'' (t @ CHR ''<'' # CHR ''/'' # u)
     = count_sub ''<td>'' t + count_sub ''<td>'' (CHR ''<'' # CHR ''/'' # u)"
proof (induction t)
  case Nil
  show ?case by simp
next
  case (Cons c t)
  have "count_sub ''<td>'' ((c # t) @ CHR ''<'' # CHR ''/'' # u)
      = (if take (length ''<td>'') (c # t @ CHR ''<'' # CHR ''/'' # u) = ''<td>'' then 1 else 0)
        + count_sub ''<td>'' (t @ CHR ''<'' # CHR ''/'' # u)"
    by (simp only: append_Cons count_sub.simps)
  also have "\<dots> = (if take (length ''<td>'') (c # t) = ''<td>'' then 1 else 0)
        + (count_sub ''<td>'' t + count_sub ''<td>'' (CHR ''<'' # CHR ''/'' # u))"
    by (simp only: take_td_close Cons.IH)
  also have "\<dots> = count_sub ''<td>'' (c # t) + count_sub ''<td>'' (CHR ''<'' # CHR ''/'' # u)"
    by (simp only: count_sub.simps add.assoc)
  finally show ?case .
qed

lemma count_td_cell:
  "count_sub ''<td>'' (''<td>'' @ t @ ''</td>'' @ rest)
     = Suc (count_sub ''<td>'' t + count_sub ''<td>'' rest)"
proof -
  have "count_sub ''<td>'' (''<td>'' @ t @ ''</td>'' @ rest)
      = Suc (count_sub ''<td>'' (t @ CHR ''<'' # CHR ''/'' # ''td>'' @ rest))"
    by simp
  also have "\<dots> = Suc (count_sub ''<td>'' t + count_sub ''<td>'' (CHR ''<'' # CHR ''/'' # ''td>'' @ rest))"
    by (simp only: count_td_before_close)
  also have "\<dots> = Suc (count_sub ''<td>'' t + count_sub ''<td>'' rest)"
    by simp
  finally show ?thesis .
qed

lemma count_td_cells:
  "count_sub ''<td>'' (concat (map (\<lambda>h. ''<td>'' @ f h @ ''</td>'') hs) @ rest)
     = length hs + sum_list (map (\<lambda>h. count_sub ''<td>'' (f h)) hs) + count_sub ''<td>'' rest"
proof (induction hs)
  case Nil
  show ?case by simp
next
  case (Cons h hs)
  have "count_sub ''<td>'' (concat (map (\<lambda>h. ''<td>'' @ f h @ ''</td>'') (h # hs)) @ rest)
      = count_sub ''<td>'' (''<td>'' @ f h @ ''</td>''
          @ (concat (map (\<lambda>h. ''<td>'' @ f h @ ''</td>'') hs) @ rest))"
    by simp
  also have "\<dots> = Suc (count_sub ''<td>'' (f h)
      + count_sub ''<td>'' (concat (map (\<lambda>h. ''<td>'' @ f h @ ''</td>'') hs) @ rest))"
    by (rule count_td_cell)
  finally show ?case
    using Cons by simp
qed

lemma count_td_row:
  "count_sub ''<td>'' (tr_row P hs row)
     = length hs + sum_list (map (\<lambda>h. count_sub ''<td>'' (ToString (value_or_empty P row h))) hs)"
proof -
  have "tr_row P hs row = ''<tr>''
      @ (concat (map (\<lambda>h. ''<td>'' @ ToString (value_or_empty P row h) @ ''</td>'') hs) @ ''</tr>'')"
    by (simp add: tr_row_fun td_cell_def cong: map_cong)
  then have "count_sub ''<td>'' (tr_row P hs row)
      = count_sub ''<td>''
         (concat (map (\<lambda>h. ''<td>'' @ ToString (value_or_empty P row h) @ ''</td>'') hs) @ ''</tr>'')"
    by simp
  also have "\<dots> = length hs
      + sum_list (map (\<lambda>h. count_sub ''<td>'' (ToString (value_or_empty P row h))) hs)
      + count_sub ''<td>'' ''</tr>''"
    by (rule count_td_cells)
  finally show ?thesis by simp
qed

lemma sum_list_zero: "\<forall>x\<in>set xs. f x = (0::nat) \<Longrightarrow> sum_list (map f xs) = 0"
  by (induction xs) simp_all

subsection \<open>Rows and header cells of the output\<close>

lemma row_in_output:
  assumes "i < length d"
  shows "json2html P d =
      (table_open @ concat (map th_cell (headers_of d)) @ ''</tr></thead><tbody>''
        @ concat (map (tr_row P (headers_of d)) (take i d)))
      @ tr_row P (headers_of d) (d ! i)
      @ (concat (map (tr_row P (headers_of d)) (drop (Suc i) d)) @ ''</tbody></table>'')"
proof -
  have "concat (map (tr_row P (headers_of d)) d) =
      concat (map (tr_row P (headers_of d)) (take i d)) @ tr_row P (headers_of d) (d ! i)
       @ concat (map (tr_row P (headers_of d)) (drop (Suc i) d))"
    using assms by (rule concat_map_split [OF id_take_nth_drop])
  then show ?thesis by (simp add: json2html_eq)
qed

lemma count_list_th_cell:
  "count_list (map th_cell hs) (''<th>'' @ k @ ''</th>'') = count_list hs k"
  by (induction hs) (simp_all add: th_cell_def)

subsection \<open>What the body reads and writes\<close>

text \<open>
  The body writes its two local variables only, and of \<^verbatim>\<open>Object.prototype\<close> it reads
  the properties named by the headers.
\<close>

lemma json2html_body_reads_only:
  "html (json2html_body s) = json2html (proto s) (data s)"
  "data (json2html_body s) = data s"
  "proto (json2html_body s) = proto s"
  "frame.more (json2html_body s) = frame.more s"
  by (simp_all add: json2html_def html_body) (simp_all add: json2html_body_def stmt_defs)

lemma json2html_proto_cong:
  assumes "\<forall>h\<in>set (headers_of d). map_of P' h = map_of P h"
  shows "json2html P' d = json2html P d"
proof -
  have "td_cell P' row h = td_cell P row h" if "h \<in> set (headers_of d)" for row h
  proof -
    from assms that have "map_of P' h = map_of P h" by blast
    then have "Get P' row h = Get P row h"
      by (cases "map_of row h") (simp_all add: Get_def)
    then show ?thesis by (simp add: td_cell_def value_or_empty_def)
  qed
  then have "tr_row P' (headers_of d) row = tr_row P (headers_of d) row" for row
    by (simp add: tr_row_fun cong: map_cong)
  then have "tr_row P' (headers_of d) = tr_row P (headers_of d)"
    by (rule ext)
  then show ?thesis by (simp add: json2html_eq)
qed

section \<open>Output format\<close>

text \<open>
  C1. For every input the output is the fixed opening, whose \<open>data-user\<close> value is a
  constant of the program, then one \<open><th>key</th>\<close> per header in header order, then
  \<open></tr></thead><tbody>\<close>, then one \<open><tr>...</tr>\<close> per record in input order, each holding
  one \<open><td>\<close> per header, then \<open></tbody></table>\<close>. An empty record still gives its row:
  the input \<open>[{}]\<close> has one row, without cells, and in \<open>[{a:"x"},{}]\<close> the empty record has
  the second row, with one empty cell.
\<close>

theorem C1_output_structure:
  \<open>json2html P d =
     ''<table data-user="bingikarthik2014@gmail.com"><thead><tr>''
     @ concat (map (\<lambda>h. ''<th>'' @ h @ ''</th>'') (headers_of d))
     @ ''</tr></thead><tbody>''
     @ concat (map (\<lambda>row. ''<tr>''
          @ concat (map (\<lambda>h. ''<td>'' @ ToString (value_or_empty P row h) @ ''</td>'') (headers_of d))
          @ ''</tr>'') d)
     @ ''</tbody></table>''
   \<and> json2html Object_prototype [[]] =
     ''<table data-user="bingikarthik2014@gmail.com"><thead><tr></tr></thead><tbody><tr></tr></tbody></table>''
   \<and> json2html Object_prototype [[(''a'', JStr ''x'')], []] =
     ''<table data-user="bingikarthik2014@gmail.com"><thead><tr><th>a</th></tr></thead><tbody><tr><td>x</td></tr><tr><td></td></tr></tbody></table>''\<close>
proof (intro conjI)
  have rows: "tr_row P hs = (\<lambda>row. ''<tr>''
      @ concat (map (\<lambda>h. ''<td>'' @ ToString (value_or_empty P row h) @ ''</td>'') hs) @ ''</tr>'')" for hs
    by (rule ext) (simp add: tr_row_def join_empty_sep td_cell_def cong: map_cong)
  have ths: "th_cell = (\<lambda>h. ''<th>'' @ h @ ''</th>'')"
    by (rule ext) (simp add: th_cell_def)
  show \<open>json2html P d =
     ''<table data-user="bingikarthik2014@gmail.com"><thead><tr>''
     @ concat (map (\<lambda>h. ''<th>'' @ h @ ''</th>'') (headers_of d))
     @ ''</tr></thead><tbody>''
     @ concat (map (\<lambda>row. ''<tr>''
          @ concat (map (\<lambda>h. ''<td>'' @ ToString (value_or_empty P row h) @ ''</td>'') (headers_of d))
          @ ''</tr>'') d)
     @ ''</tbody></table>''\<close>
    unfolding json2html_eq rows ths table_open_def by simp
  show \<open>json2html Object_prototype [[]] =
     ''<table data-user="bingikarthik2014@gmail.com"><thead><tr></tr></thead><tbody><tr></tr></tbody></table>''\<close>
    by (simp add: json2html_eq headers_eval table_open_def tr_row_def)
  show \<open>json2html Object_prototype [[(''a'', JStr ''x'')], []] =
     ''<table data-user="bingikarthik2014@gmail.com"><thead><tr><th>a</th></tr></thead><tbody><tr><td>x</td></tr><tr><td></td></tr></tbody></table>''\<close>
    by (simp add: json2html_eq headers_eval Set_add_def table_open_def th_cell_def tr_row_def
        td_cell_def value_or_empty_def Get_def Object_prototype_def)
qed

section \<open>Header derivation\<close>

text \<open>
  C2. The header sequence consists of the keys seen when the records are scanned from
  left to right, each record's own keys in that record's native order; every key occurs
  once, and the headers are ordered by the position at which each is first seen in that
  scan. For \<open>[{b:1,a:2},{c:3}]\<close> the headers are \<open>b, a, c\<close>.
\<close>

theorem C2_headers_first_seen:
  "set (headers_of d) = set (concat (map (map fst) d))
   \<and> distinct (headers_of d)
   \<and> sorted_wrt (\<lambda>a b. first_index (concat (map (map fst) d)) a
                          < first_index (concat (map (map fst) d)) b) (headers_of d)
   \<and> headers_of [[(''b'', JInt 1), (''a'', JInt 2)], [(''c'', JInt 3)]] = [''b'', ''a'', ''c'']"
proof (intro conjI)
  show "set (headers_of d) = set (concat (map (map fst) d))"
    unfolding headers_of_eq scan_keys by (rule set_new_Set)
  show "distinct (headers_of d)"
    unfolding headers_of_eq by (rule distinct_new_Set)
  show "sorted_wrt (\<lambda>a b. first_index (concat (map (map fst) d)) a
                          < first_index (concat (map (map fst) d)) b) (headers_of d)"
    unfolding headers_of_eq scan_keys by (rule new_Set_first_seen)
  show "headers_of [[(''b'', JInt 1), (''a'', JInt 2)], [(''c'', JInt 3)]] = [''b'', ''a'', ''c'']"
    by (simp add: headers_eval Set_add_def)
qed

text \<open>
  C6. The header sequence has no duplicates: there are as many \<open><th>\<close> elements as there
  are distinct keys, they are the text of the header row of the output, and a key that
  occurs in the records, however often, is the content of exactly one of them. For
  \<open>[{a:1},{a:2}]\<close> the only header is \<open>a\<close>, and the output has the one header cell
  \<open><th>a</th>\<close>.
\<close>

theorem C6_headers_unique:
  \<open>distinct (headers_of d)
   \<and> length (map th_cell (headers_of d)) = card (set (concat (map Object_keys d)))
   \<and> json2html P d =
        table_open @ concat (map th_cell (headers_of d)) @ ''</tr></thead><tbody>''
        @ concat (map (tr_row P (headers_of d)) d) @ ''</tbody></table>''
   \<and> (k \<in> set (concat (map Object_keys d)) \<longrightarrow>
        count_list (map th_cell (headers_of d)) (''<th>'' @ k @ ''</th>'') = 1
        \<and> (\<exists>hs1 hs2. headers_of d = hs1 @ k # hs2 \<and> k \<notin> set hs1 \<and> k \<notin> set hs2
             \<and> json2html P d =
                 (table_open @ concat (map th_cell hs1))
                 @ ''<th>'' @ k @ ''</th>''
                 @ (concat (map th_cell hs2) @ ''</tr></thead><tbody>''
                    @ concat (map (tr_row P (headers_of d)) d) @ ''</tbody></table>'')))
   \<and> headers_of [[(''a'', JInt 1)], [(''a'', JInt 2)]] = [''a'']
   \<and> json2html Object_prototype [[(''a'', JInt 1)], [(''a'', JInt 2)]] =
       ''<table data-user="bingikarthik2014@gmail.com"><thead><tr><th>a</th></tr></thead><tbody><tr><td>1</td></tr><tr><td>2</td></tr></tbody></table>''\<close>
proof (intro conjI impI)
  show dist: "distinct (headers_of d)"
    unfolding headers_of_eq by (rule distinct_new_Set)
  have "set (headers_of d) = set (concat (map Object_keys d))"
    by (simp add: headers_of_eq set_new_Set flatMap_def)
  with dist show "length (map th_cell (headers_of d)) = card (set (concat (map Object_keys d)))"
    by (metis distinct_card length_map)
  show "json2html P d =
        table_open @ concat (map th_cell (headers_of d)) @ ''</tr></thead><tbody>''
        @ concat (map (tr_row P (headers_of d)) d) @ ''</tbody></table>''"
    by (rule json2html_eq)
  show "headers_of [[(''a'', JInt 1)], [(''a'', JInt 2)]] = [''a'']"
    by (simp add: headers_eval Set_add_def)
  show \<open>json2html Object_prototype [[(''a'', JInt 1)], [(''a'', JInt 2)]] =
       ''<table data-user="bingikarthik2014@gmail.com"><thead><tr><th>a</th></tr></thead><tbody><tr><td>1</td></tr><tr><td>2</td></tr></tbody></table>''\<close>
    by (simp add: json2html_eq headers_eval Set_add_def table_open_def th_cell_def tr_row_def
        td_cell_def value_or_empty_def Get_def JInt_def strip10.simps Number_toString_def
        Number_digits_def dec_digits.simps digit_char_def)
next
  assume "k \<in> set (concat (map Object_keys d))"
  then have mem: "k \<in> set (headers_of d)"
    by (simp add: headers_of_eq set_new_Set flatMap_def)
  have dist: "distinct (headers_of d)"
    unfolding headers_of_eq by (rule distinct_new_Set)
  from dist mem have "count_list (headers_of d) k = 1"
    by (rule count_list_distinct)
  then show "count_list (map th_cell (headers_of d)) (''<th>'' @ k @ ''</th>'') = 1"
    by (simp only: count_list_th_cell)
  from mem obtain hs1 hs2 where hs: "headers_of d = hs1 @ k # hs2"
    by (auto dest: split_list)
  with dist have notin: "k \<notin> set hs1" "k \<notin> set hs2"
    by simp_all
  have "json2html P d =
                 (table_open @ concat (map th_cell hs1))
                 @ ''<th>'' @ k @ ''</th>''
                 @ (concat (map th_cell hs2) @ ''</tr></thead><tbody>''
                    @ concat (map (tr_row P (headers_of d)) d) @ ''</tbody></table>'')"
    by (subst json2html_eq, subst (1) hs) (simp add: th_cell_def)
  with hs notin show "\<exists>hs1 hs2. headers_of d = hs1 @ k # hs2 \<and> k \<notin> set hs1 \<and> k \<notin> set hs2
             \<and> json2html P d =
                 (table_open @ concat (map th_cell hs1))
                 @ ''<th>'' @ k @ ''</th>''
                 @ (concat (map th_cell hs2) @ ''</tr></thead><tbody>''
                    @ concat (map (tr_row P (headers_of d)) d) @ ''</tbody></table>'')"
    by blast
qed

theorem C6_headers_unique_witness:
  "count_list (map th_cell (headers_of [[(''a'', JInt 1)], [(''a'', JInt 2)]])) ''<th>a</th>'' = 1
   \<and> (\<exists>hs1 hs2. headers_of [[(''a'', JInt 1)], [(''a'', JInt 2)]] = hs1 @ ''a'' # hs2
        \<and> ''a'' \<notin> set hs1 \<and> ''a'' \<notin> set hs2
        \<and> json2html Object_prototype [[(''a'', JInt 1)], [(''a'', JInt 2)]] =
             (table_open @ concat (map th_cell hs1))
             @ ''<th>'' @ ''a'' @ ''</th>''
             @ (concat (map th_cell hs2) @ ''</tr></thead><tbody>''
                @ concat (map (tr_row Object_prototype (headers_of [[(''a'', JInt 1)], [(''a'', JInt 2)]]))
                     [[(''a'', JInt 1)], [(''a'', JInt 2)]])
                @ ''</tbody></table>''))"
proof -
  have "''a'' \<in> set (concat (map Object_keys [[(''a'', JInt 1)], [(''a'', JInt 2)]]))"
    by (simp add: Object_keys_def)
  with C6_headers_unique [of "[[(''a'', JInt 1)], [(''a'', JInt 2)]]" Object_prototype "''a''"]
  have "count_list (map th_cell (headers_of [[(''a'', JInt 1)], [(''a'', JInt 2)]])) (''<th>'' @ ''a'' @ ''</th>'') = 1
   \<and> (\<exists>hs1 hs2. headers_of [[(''a'', JInt 1)], [(''a'', JInt 2)]] = hs1 @ ''a'' # hs2
        \<and> ''a'' \<notin> set hs1 \<and> ''a'' \<notin> set hs2
        \<and> json2html Object_prototype [[(''a'', JInt 1)], [(''a'', JInt 2)]] =
             (table_open @ concat (map th_cell hs1))
             @ ''<th>'' @ ''a'' @ ''</th>''
             @ (concat (map th_cell hs2) @ ''</tr></thead><tbody>''
                @ concat (map (tr_row Object_prototype (headers_of [[(''a'', JInt 1)], [(''a'', JInt 2)]]))
                     [[(''a'', JInt 1)], [(''a'', JInt 2)]])
                @ ''</tbody></table>''))"
    by blast
  then show ?thesis by simp
qed

section \<open>Empty input\<close>

text \<open>
  C5. On the empty array the header sequence is empty, and the output is the fixed
  wrapper with an empty header row and an empty body.
\<close>

theorem C5_empty_input:
  \<open>headers_of [] = [] \<and>
   json2html P [] =
     ''<table data-user="bingikarthik2014@gmail.com"><thead><tr></tr></thead><tbody></tbody></table>''\<close>
  by (simp add: json2html_eq headers_of_eq new_Set_def flatMap_def table_open_def)

section \<open>Cells per row\<close>

text \<open>
  C4. Cell texts are not escaped, so a row can contain more \<open><td>\<close>
  than there are headers. For every input, every body row of the output is \<open><tr>\<close>, one
  \<open><td>text</td>\<close> per header and \<open></tr>\<close>; the number of \<open><td>\<close> in the row is the number
  of headers plus the number of \<open><td>\<close> inside the row's cell texts; so a row none of
  whose cell texts contains \<open><td>\<close> has exactly as many \<open><td>\<close> cells as there are
  headers.
\<close>

theorem C4_cells_per_row:
  assumes "i < length d"
  shows "json2html P d =
      (table_open @ concat (map th_cell (headers_of d)) @ ''</tr></thead><tbody>''
        @ concat (map (tr_row P (headers_of d)) (take i d)))
      @ tr_row P (headers_of d) (d ! i)
      @ (concat (map (tr_row P (headers_of d)) (drop (Suc i) d)) @ ''</tbody></table>'')
    \<and> tr_row P (headers_of d) (d ! i) =
        ''<tr>''
        @ concat (map (\<lambda>h. ''<td>'' @ ToString (value_or_empty P (d ! i) h) @ ''</td>'') (headers_of d))
        @ ''</tr>''
    \<and> count_sub ''<td>'' (tr_row P (headers_of d) (d ! i)) =
        length (headers_of d)
        + sum_list (map (\<lambda>h. count_sub ''<td>'' (ToString (value_or_empty P (d ! i) h))) (headers_of d))
    \<and> ((\<forall>h\<in>set (headers_of d). count_sub ''<td>'' (ToString (value_or_empty P (d ! i) h)) = 0)
        \<longrightarrow> count_sub ''<td>'' (tr_row P (headers_of d) (d ! i)) = length (headers_of d))"
proof (intro conjI impI)
  show "json2html P d =
      (table_open @ concat (map th_cell (headers_of d)) @ ''</tr></thead><tbody>''
        @ concat (map (tr_row P (headers_of d)) (take i d)))
      @ tr_row P (headers_of d) (d ! i)
      @ (concat (map (tr_row P (headers_of d)) (drop (Suc i) d)) @ ''</tbody></table>'')"
    using assms by (rule row_in_output)
  show "tr_row P (headers_of d) (d ! i) =
        ''<tr>''
        @ concat (map (\<lambda>h. ''<td>'' @ ToString (value_or_empty P (d ! i) h) @ ''</td>'') (headers_of d))
        @ ''</tr>''"
    by (simp add: tr_row_fun td_cell_def cong: map_cong)
  show "count_sub ''<td>'' (tr_row P (headers_of d) (d ! i)) =
        length (headers_of d)
        + sum_list (map (\<lambda>h. count_sub ''<td>'' (ToString (value_or_empty P (d ! i) h))) (headers_of d))"
    by (rule count_td_row)
  assume "\<forall>h\<in>set (headers_of d). count_sub ''<td>'' (ToString (value_or_empty P (d ! i) h)) = 0"
  then have "sum_list (map (\<lambda>h. count_sub ''<td>'' (ToString (value_or_empty P (d ! i) h))) (headers_of d)) = 0"
    by (rule sum_list_zero)
  then show "count_sub ''<td>'' (tr_row P (headers_of d) (d ! i)) = length (headers_of d)"
    by (simp add: count_td_row)
qed

theorem C4_cells_per_row_witness:
  "count_sub ''<td>''
     (tr_row Object_prototype (headers_of [[(''a'', JInt 1)], [(''b'', JStr ''x<y'')]])
        ([[(''a'', JInt 1)], [(''b'', JStr ''x<y'')]] ! 1))
    = length (headers_of [[(''a'', JInt 1)], [(''b'', JStr ''x<y'')]])
   \<and> length (headers_of [[(''a'', JInt 1)], [(''b'', JStr ''x<y'')]]) = 2"
  using C4_cells_per_row [of 1 "[[(''a'', JInt 1)], [(''b'', JStr ''x<y'')]]" Object_prototype]
  by (simp add: headers_eval Set_add_def value_or_empty_def Get_def Object_prototype_def)

text \<open>
  Without that condition the count fails: in \<open>[{a:"</td><td>"}]\<close> there is one header,
  and the one row is \<open><tr><td></td><td></td></tr>\<close>, with two cells.
\<close>

theorem C4_markup_value_counterexample:
  \<open>json2html Object_prototype [[(''a'', JStr ''</td><td>'')]] =
     ''<table data-user="bingikarthik2014@gmail.com"><thead><tr><th>a</th></tr></thead><tbody><tr><td></td><td></td></tr></tbody></table>''
   \<and> length (headers_of [[(''a'', JStr ''</td><td>'')]]) = 1
   \<and> count_sub ''<td>''
        (tr_row Object_prototype (headers_of [[(''a'', JStr ''</td><td>'')]])
           ([[(''a'', JStr ''</td><td>'')]] ! 0)) = 2\<close>
  by (simp add: json2html_eq headers_eval Set_add_def table_open_def th_cell_def tr_row_def
        td_cell_def value_or_empty_def Get_def)

section \<open>Cell contents\<close>

text \<open>
  For a header that is not the name of a member of \<^verbatim>\<open>Object.prototype\<close>, the cell is
  empty exactly when the record has no value for the key or a falsy one, and holds the
  value's string otherwise.
\<close>

lemma td_cell_empty_iff:
  assumes "map_of P h = None"
  shows "td_cell P row h = ''<td></td>'' \<longleftrightarrow>
         (map_of row h = None \<or> (\<exists>v. map_of row h = Some v \<and> \<not> ToBoolean v))"
proof (cases "map_of row h")
  case None
  with assms show ?thesis by (simp add: td_cell_absent_plain)
next
  case (Some v)
  show ?thesis
  proof (cases "ToBoolean v")
    case True
    with Some show ?thesis
      by (simp add: td_cell_own_truthy ToString_truthy_nonempty)
  next
    case False
    with Some show ?thesis by (simp add: td_cell_own_falsy)
  qed
qed

text \<open>
  The rows of \<open>[{a:1},{b:2}]\<close>, and the cells of the falsy values \<open>0\<close> and \<open>false\<close>.
\<close>

lemma missing_and_falsy_cells:
  "map (tr_row Object_prototype (headers_of [[(''a'', JInt 1)], [(''b'', JInt 2)]])) [[(''a'', JInt 1)], [(''b'', JInt 2)]]
     = [''<tr><td>1</td><td></td></tr>'', ''<tr><td></td><td>2</td></tr>'']"
  "td_cell Object_prototype [(''a'', JInt 0)] ''a'' = ''<td></td>''"
  "td_cell Object_prototype [(''a'', JBool False)] ''a'' = ''<td></td>''"
  by (simp_all add: headers_eval Set_add_def tr_row_def td_cell_def value_or_empty_def Get_def
      Object_prototype_def JInt_def strip10.simps Number_toString_def Number_digits_def
      dec_digits.simps digit_char_def)

text \<open>
  C3. The claim: for every record and every header, the cell is empty exactly when the
  record's value for that key is absent or falsy. The code looks the key up with
  \<^verbatim>\<open>row[header]\<close>, which also finds what the record inherits from
  \<^verbatim>\<open>Object.prototype\<close>. In \<open>[{name:"x", constructor:"ACME"}, {name:"y"}]\<close> the second
  record has no key \<open>constructor\<close>, yet its cell in that column is not empty: it holds the
  text of the inherited built-in function.
\<close>

theorem C3_inherited_key_not_empty:
  \<open>map_of [(''name'', JStr ''y'')] ''constructor'' = None
   \<and> td_cell Object_prototype [(''name'', JStr ''y'')] ''constructor'' = ''<td>function Object() { [native code] }</td>''
   \<and> json2html Object_prototype [[(''name'', JStr ''x''), (''constructor'', JStr ''ACME'')], [(''name'', JStr ''y'')]] =
     ''<table data-user="bingikarthik2014@gmail.com"><thead><tr><th>name</th><th>constructor</th></tr></thead><tbody><tr><td>x</td><td>ACME</td></tr><tr><td>y</td><td>function Object() { [native code] }</td></tr></tbody></table>''\<close>
  by (simp add: json2html_eq headers_eval Set_add_def table_open_def th_cell_def tr_row_def
        td_cell_def value_or_empty_def Get_def Object_prototype_def)

text \<open>
  The strings of \<open>1e21\<close>, \<open>2\<^sup>6\<^sup>4\<close>, \<open>1e-7\<close>, \<open>0.000001\<close>, \<open>-0.5\<close>, \<open>123.456\<close>, \<open>100\<close>
  and the infinities.
\<close>

lemma replicate_numeral: "replicate (numeral k) x = x # replicate (pred_numeral k) x"
  by (simp add: numeral_eq_Suc)

lemma Number_toString_examples:
  "ToString (JNum False 1 22) = ''1e+21''"
  "ToString (JNum False 18446744073709552 20) = ''18446744073709552000''"
  "ToString (JNum False 1 (- 6)) = ''1e-7''"
  "ToString (JNum False 1 (- 5)) = ''0.000001''"
  "ToString (JNum True 5 0) = ''-0.5''"
  "ToString (JNum False 123456 3) = ''123.456''"
  "ToString (JNum False 1 3) = ''100''"
  "ToString (JInt 100) = ''100''"
  "ToString (JInfinity False) = ''Infinity''"
  "ToString (JInfinity True) = ''-Infinity''"
  by (simp_all add: JInt_def strip10.simps Number_toString_def Number_digits_def
      dec_digits.simps digit_char_def replicate_numeral)

text \<open>
  C9. A truthy value of a record stands in its cell as the string
  the language converts it to: \<open>true\<close> gives \<open><td>true</td>\<close> and the string \<open>"0"\<close> gives
  \<open><td>0</td>\<close>. A nonzero integer below \<open>2\<^sup>5\<^sup>3\<close> in magnitude gives exactly its
  decimal digits, without leading zeros, after a minus sign when negative. In general a
  nonzero finite number is written from its shortest decimal representation: in plain
  decimal notation, with a decimal point only for a fraction and no exponent, when its
  magnitude is at least \<open>10\<^sup>-\<^sup>6\<close> and below \<open>10\<^sup>2\<^sup>1\<close> (exponent \<open>-6 < n \<le> 21\<close>), the
  numeral denoting that representation; and in exponent notation otherwise. The
  infinities give \<open>Infinity\<close> and \<open>-Infinity\<close>.
\<close>

theorem C9_truthy_rendering:
  "(row \<in> set d \<and> map_of row h = Some v \<and> ToBoolean v \<longrightarrow>
      (\<exists>pre suf. json2html P d = pre @ ''<td>'' @ ToString v @ ''</td>'' @ suf))
   \<and> ToBoolean (JBool True) \<and> ToString (JBool True) = ''true''
   \<and> ToBoolean (JStr ''0'') \<and> ToString (JStr ''0'') = ''0''
   \<and> (i \<noteq> 0 \<and> \<bar>i\<bar> < 2 ^ 53 \<longrightarrow>
        ToBoolean (JInt i)
        \<and> ToString (JInt i) = (if i < 0 then ''-'' else []) @ dec_digits (nat \<bar>i\<bar>)
        \<and> set (dec_digits (nat \<bar>i\<bar>)) \<subseteq> set ''0123456789''
        \<and> hd (dec_digits (nat \<bar>i\<bar>)) \<noteq> CHR ''0''
        \<and> digits_value (dec_digits (nat \<bar>i\<bar>)) = nat \<bar>i\<bar>)
   \<and> (s \<noteq> 0 \<longrightarrow>
        ToBoolean (JNum neg s n)
        \<and> ToString (JNum neg s n) = (if neg then ''-'' else []) @ Number_digits s n)
   \<and> (- 6 < n \<and> n \<le> 21 \<longrightarrow>
        CHR ''e'' \<notin> set (Number_digits s n)
        \<and> set (filter (\<lambda>c. c \<noteq> CHR ''.'') (Number_digits s n)) \<subseteq> set ''0123456789''
        \<and> digits_value (filter (\<lambda>c. c \<noteq> CHR ''.'') (Number_digits s n))
             = s * 10 ^ nat (n - int (length (dec_digits s)))
        \<and> fraction_places (Number_digits s n) = nat (int (length (dec_digits s)) - n)
        \<and> (0 < n \<and> s \<noteq> 0 \<longrightarrow> hd (Number_digits s n) \<noteq> CHR ''0'')
        \<and> (n \<le> 0 \<longrightarrow> take 2 (Number_digits s n) = ''0.''))
   \<and> (\<not> (- 6 < n \<and> n \<le> 21) \<longrightarrow>
        CHR ''e'' \<in> set (Number_digits s n)
        \<and> Number_digits s n =
            take 1 (dec_digits s)
            @ (if length (dec_digits s) = 1 then [] else ''.'' @ drop 1 (dec_digits s))
            @ ''e'' @ (if n < 1 then ''-'' else ''+'') @ dec_digits (nat \<bar>n - 1\<bar>))
   \<and> ToBoolean (JInfinity neg)
   \<and> ToString (JInfinity neg) = (if neg then ''-Infinity'' else ''Infinity'')"
proof (intro conjI impI)
  assume a: "row \<in> set d \<and> map_of row h = Some v \<and> ToBoolean v"
  then have "h \<in> set (headers_of d)"
    by (auto intro: key_in_headers map_of_key)
  with a have "\<exists>pre suf. json2html P d = pre @ td_cell P row h @ suf"
    by (intro td_in_output) auto
  moreover from a have "td_cell P row h = ''<td>'' @ ToString v @ ''</td>''"
    by (simp add: td_cell_own_truthy)
  ultimately show "\<exists>pre suf. json2html P d = pre @ ''<td>'' @ ToString v @ ''</td>'' @ suf"
    by simp
next
  assume i: "i \<noteq> 0 \<and> \<bar>i\<bar> < 2 ^ 53"
  then show "ToBoolean (JInt i)" by (simp add: ToBoolean_JInt)
  from i show "ToString (JInt i) = (if i < 0 then ''-'' else []) @ dec_digits (nat \<bar>i\<bar>)"
    by (intro ToString_JInt) simp_all
  show "set (dec_digits (nat \<bar>i\<bar>)) \<subseteq> set ''0123456789''"
    by (rule dec_digits_chars)
  from i show "hd (dec_digits (nat \<bar>i\<bar>)) \<noteq> CHR ''0''"
    by (intro dec_digits_no_leading_zero) simp
  show "digits_value (dec_digits (nat \<bar>i\<bar>)) = nat \<bar>i\<bar>"
    by (rule digits_value_dec_digits)
next
  assume "s \<noteq> 0"
  then show "ToBoolean (JNum neg s n)"
    and "ToString (JNum neg s n) = (if neg then ''-'' else []) @ Number_digits s n"
    by (simp_all add: Number_toString_def)
next
  assume n: "- 6 < n \<and> n \<le> 21"
  then have n1: "- 6 < n" and n2: "n \<le> 21" by simp_all
  show "CHR ''e'' \<notin> set (Number_digits s n)"
    using n1 n2 by (rule Number_digits_plain)
  show "set (filter (\<lambda>c. c \<noteq> CHR ''.'') (Number_digits s n)) \<subseteq> set ''0123456789''"
    using n1 n2 by (rule Number_digits_plain)
  show "digits_value (filter (\<lambda>c. c \<noteq> CHR ''.'') (Number_digits s n))
             = s * 10 ^ nat (n - int (length (dec_digits s)))"
    using n1 n2 by (rule Number_digits_plain)
  show "fraction_places (Number_digits s n) = nat (int (length (dec_digits s)) - n)"
    using n1 n2 by (rule Number_digits_plain)
  show "hd (Number_digits s n) \<noteq> CHR ''0''" if "0 < n \<and> s \<noteq> 0"
    using that by (intro Number_digits_leading) simp_all
  show "take 2 (Number_digits s n) = ''0.''" if "n \<le> 0"
    using n1 that by (rule Number_digits_leading)
next
  assume e: "\<not> (- 6 < n \<and> n \<le> 21)"
  then show "CHR ''e'' \<in> set (Number_digits s n)"
    by (rule Number_digits_exponent)
  from e show "Number_digits s n =
            take 1 (dec_digits s)
            @ (if length (dec_digits s) = 1 then [] else ''.'' @ drop 1 (dec_digits s))
            @ ''e'' @ (if n < 1 then ''-'' else ''+'') @ dec_digits (nat \<bar>n - 1\<bar>)"
    by (rule Number_digits_exponent_form)
qed simp_all

theorem C9_truthy_rendering_witness:
  "(\<exists>pre suf. json2html Object_prototype
        [[(''t'', JBool True), (''n'', JInt (- 42)), (''z'', JStr ''0''), (''f'', JNum False 15 1)]]
      = pre @ ''<td>true</td>'' @ suf)
   \<and> (\<exists>pre suf. json2html Object_prototype
        [[(''t'', JBool True), (''n'', JInt (- 42)), (''z'', JStr ''0''), (''f'', JNum False 15 1)]]
      = pre @ ''<td>-42</td>'' @ suf)
   \<and> (\<exists>pre suf. json2html Object_prototype
        [[(''t'', JBool True), (''n'', JInt (- 42)), (''z'', JStr ''0''), (''f'', JNum False 15 1)]]
      = pre @ ''<td>0</td>'' @ suf)
   \<and> (\<exists>pre suf. json2html Object_prototype
        [[(''t'', JBool True), (''n'', JInt (- 42)), (''z'', JStr ''0''), (''f'', JNum False 15 1)]]
      = pre @ ''<td>1.5</td>'' @ suf)
   \<and> ToString (JInt (- 42)) = ''-42''
   \<and> ToString (JNum False 15 1) = ''1.5''
   \<and> digits_value ''15'' = 15 * 10 ^ 0
   \<and> fraction_places ''1.5'' = 1
   \<and> Number_digits 1 22 = ''1e+21''"
  using
    C9_truthy_rendering [where row = "[(''t'', JBool True), (''n'', JInt (- 42)), (''z'', JStr ''0''), (''f'', JNum False 15 1)]"
      and d = "[[(''t'', JBool True), (''n'', JInt (- 42)), (''z'', JStr ''0''), (''f'', JNum False 15 1)]]"
      and P = Object_prototype and h = "''t''" and v = "JBool True" and i = "- 42" and s = 1 and n = 22 and neg = False]
    C9_truthy_rendering [where row = "[(''t'', JBool True), (''n'', JInt (- 42)), (''z'', JStr ''0''), (''f'', JNum False 15 1)]"
      and d = "[[(''t'', JBool True), (''n'', JInt (- 42)), (''z'', JStr ''0''), (''f'', JNum False 15 1)]]"
      and P = Object_prototype and h = "''t''" and v = "JBool True" and i = "- 42" and s = 15 and n = 1 and neg = False]
    C9_truthy_rendering [where row = "[(''t'', JBool True), (''n'', JInt (- 42)), (''z'', JStr ''0''), (''f'', JNum False 15 1)]"
      and d = "[[(''t'', JBool True), (''n'', JInt (- 42)), (''z'', JStr ''0''), (''f'', JNum False 15 1)]]"
      and P = Object_prototype and h = "''n''" and v = "JInt (- 42)" and i = "- 42" and s = 15 and n = 1 and neg = False]
    C9_truthy_rendering [where row = "[(''t'', JBool True), (''n'', JInt (- 42)), (''z'', JStr ''0''), (''f'', JNum False 15 1)]"
      and d = "[[(''t'', JBool True), (''n'', JInt (- 42)), (''z'', JStr ''0''), (''f'', JNum False 15 1)]]"
      and P = Object_prototype and h = "''z''" and v = "JStr ''0''" and i = "- 42" and s = 15 and n = 1 and neg = False]
    C9_truthy_rendering [where row = "[(''t'', JBool True), (''n'', JInt (- 42)), (''z'', JStr ''0''), (''f'', JNum False 15 1)]"
      and d = "[[(''t'', JBool True), (''n'', JInt (- 42)), (''z'', JStr ''0''), (''f'', JNum False 15 1)]]"
      and P = Object_prototype and h = "''f''" and v = "JNum False 15 1" and i = "- 42" and s = 15 and n = 1 and neg = False]
  by (simp add: JInt_def strip10.simps Number_toString_def Number_digits_def dec_digits.simps
      digit_char_def)

text \<open>
  A number is not always written with its decimal digits: \<open>1e21\<close> is truthy and its cell
  is \<open><td>1e+21</td>\<close>.
\<close>

theorem C9_exponent_counterexample:
  \<open>ToBoolean (JNum False 1 22)
   \<and> td_cell Object_prototype [(''a'', JNum False 1 22)] ''a'' = ''<td>1e+21</td>''
   \<and> td_cell Object_prototype [(''a'', JNum False 1 22)] ''a'' \<noteq> ''<td>1000000000000000000000</td>''
   \<and> json2html Object_prototype [[(''a'', JNum False 1 22)]] =
     ''<table data-user="bingikarthik2014@gmail.com"><thead><tr><th>a</th></tr></thead><tbody><tr><td>1e+21</td></tr></tbody></table>''\<close>
  by (simp add: json2html_eq headers_eval Set_add_def table_open_def th_cell_def tr_row_def
        td_cell_def value_or_empty_def Get_def Number_toString_def Number_digits_def
        dec_digits.simps digit_char_def)

section \<open>No escaping\<close>

text \<open>
  C7. Neither headers nor cell values are escaped. Every key of every record stands in
  the output between \<open><th>\<close> and \<open></th>\<close> character for character, and every non-empty
  string value stands between \<open><td>\<close> and \<open></td>\<close> character for character, whatever
  characters they contain. A key and a value with \<open><\<close>, \<open>>\<close>, \<open>&\<close> and the double quote
  come out unchanged.
\<close>

theorem C7_no_escaping:
  \<open>(row \<in> set d \<and> k \<in> set (Object_keys row) \<longrightarrow>
      (\<exists>pre suf. json2html P d = pre @ ''<th>'' @ k @ ''</th>'' @ suf))
   \<and> (row \<in> set d \<and> map_of row k = Some (JStr s) \<and> s \<noteq> [] \<longrightarrow>
      (\<exists>pre suf. json2html P d = pre @ ''<td>'' @ s @ ''</td>'' @ suf))
   \<and> json2html Object_prototype [[(''<b>&'', JStr ''"1"<2 & <i>x</i>'')]] =
       ''<table data-user="bingikarthik2014@gmail.com"><thead><tr><th><b>&</th></tr></thead><tbody><tr><td>"1"<2 & <i>x</i></td></tr></tbody></table>''\<close>
proof (intro conjI impI)
  assume "row \<in> set d \<and> k \<in> set (Object_keys row)"
  then show "\<exists>pre suf. json2html P d = pre @ ''<th>'' @ k @ ''</th>'' @ suf"
    by (intro th_in_output) (auto intro: key_in_headers)
next
  assume a: "row \<in> set d \<and> map_of row k = Some (JStr s) \<and> s \<noteq> []"
  then have "k \<in> set (headers_of d)"
    by (auto intro: key_in_headers map_of_key)
  with a have "\<exists>pre suf. json2html P d = pre @ td_cell P row k @ suf"
    by (intro td_in_output) auto
  moreover from a have "td_cell P row k = ''<td>'' @ s @ ''</td>''"
    by (simp add: td_cell_own_truthy)
  ultimately show "\<exists>pre suf. json2html P d = pre @ ''<td>'' @ s @ ''</td>'' @ suf"
    by simp
next
  show \<open>json2html Object_prototype [[(''<b>&'', JStr ''"1"<2 & <i>x</i>'')]] =
       ''<table data-user="bingikarthik2014@gmail.com"><thead><tr><th><b>&</th></tr></thead><tbody><tr><td>"1"<2 & <i>x</i></td></tr></tbody></table>''\<close>
    by (simp add: json2html_eq headers_eval Set_add_def table_open_def th_cell_def tr_row_def
        td_cell_def value_or_empty_def Get_def)
qed

theorem C7_no_escaping_witness:
  \<open>(\<exists>pre suf. json2html Object_prototype [[(''<b>&'', JStr ''"1"<2'')]] = pre @ ''<th><b>&</th>'' @ suf)
   \<and> (\<exists>pre suf. json2html Object_prototype [[(''<b>&'', JStr ''"1"<2'')]] = pre @ ''<td>"1"<2</td>'' @ suf)\<close>
  using C7_no_escaping [where row = \<open>[(''<b>&'', JStr ''"1"<2'')]\<close>
      and d = \<open>[[(''<b>&'', JStr ''"1"<2'')]]\<close> and k = \<open>''<b>&''\<close> and s = \<open>''"1"<2''\<close>
      and P = Object_prototype]
  by (simp add: Object_keys_def)

section \<open>Purity and locality\<close>

text \<open>
  C8. The claim: two calls on the same input give the same string, and the call neither
  depends on nor changes any state outside its argument. The code changes nothing, but
  \<^verbatim>\<open>row[header]\<close> reads the global \<^verbatim>\<open>Object.prototype\<close> for every header the record
  lacks. The same argument \<open>[{foo:1},{}]\<close> gives an empty second cell in the initial
  state and the cell \<open>bar\<close> after \<^verbatim>\<open>Object.prototype.foo = 'bar'\<close>.
\<close>

theorem C8_depends_on_Object_prototype:
  \<open>json2html Object_prototype [[(''foo'', JInt 1)], []] =
     ''<table data-user="bingikarthik2014@gmail.com"><thead><tr><th>foo</th></tr></thead><tbody><tr><td>1</td></tr><tr><td></td></tr></tbody></table>''
   \<and> json2html ((''foo'', JStr ''bar'') # Object_prototype) [[(''foo'', JInt 1)], []] =
     ''<table data-user="bingikarthik2014@gmail.com"><thead><tr><th>foo</th></tr></thead><tbody><tr><td>1</td></tr><tr><td>bar</td></tr></tbody></table>''
   \<and> json2html Object_prototype [[(''foo'', JInt 1)], []]
       \<noteq> json2html ((''foo'', JStr ''bar'') # Object_prototype) [[(''foo'', JInt 1)], []]\<close>
  by (simp add: json2html_eq headers_eval Set_add_def table_open_def th_cell_def tr_row_def
        td_cell_def value_or_empty_def Get_def Object_prototype_def JInt_def strip10.simps
        Number_toString_def Number_digits_def dec_digits.simps digit_char_def)

text \<open>
  C10. Take two inputs of the same length whose records have, one by one, the same keys
  in the same order, and the same value for every key except possibly key \<open>k\<close> of record
  \<open>i\<close>. Then they have the same headers, \<open>k\<close> is one column, and the two outputs are the
  same text before and the same text after the cell of row \<open>i\<close> in that column.
\<close>

theorem C10_locality:
  assumes len: "length d' = length d"
    and keys: "\<forall>j<length d. map fst (d' ! j) = map fst (d ! j)"
    and vals: "\<forall>j<length d. \<forall>h. (j, h) \<noteq> (i, k) \<longrightarrow> map_of (d' ! j) h = map_of (d ! j) h"
    and i: "i < length d"
    and k: "k \<in> set (Object_keys (d ! i))"
  shows "headers_of d' = headers_of d
    \<and> (\<exists>hs1 hs2. headers_of d = hs1 @ k # hs2 \<and> k \<notin> set hs1 \<and> k \<notin> set hs2
        \<and> json2html P d =
            (table_open @ concat (map th_cell (headers_of d)) @ ''</tr></thead><tbody>''
              @ concat (map (tr_row P (headers_of d)) (take i d))
              @ ''<tr>'' @ concat (map (td_cell P (d ! i)) hs1))
            @ td_cell P (d ! i) k
            @ (concat (map (td_cell P (d ! i)) hs2) @ ''</tr>''
              @ concat (map (tr_row P (headers_of d)) (drop (Suc i) d)) @ ''</tbody></table>'')
        \<and> json2html P d' =
            (table_open @ concat (map th_cell (headers_of d)) @ ''</tr></thead><tbody>''
              @ concat (map (tr_row P (headers_of d)) (take i d))
              @ ''<tr>'' @ concat (map (td_cell P (d ! i)) hs1))
            @ td_cell P (d' ! i) k
            @ (concat (map (td_cell P (d ! i)) hs2) @ ''</tr>''
              @ concat (map (tr_row P (headers_of d)) (drop (Suc i) d)) @ ''</tbody></table>''))"
proof
  let ?hs = "headers_of d"
  have "map (map fst) d' = map (map fst) d"
  proof (rule nth_equalityI)
    show "length (map (map fst) d') = length (map (map fst) d)"
      using len by simp
    fix j assume "j < length (map (map fst) d')"
    then show "map (map fst) d' ! j = map (map fst) d ! j"
      using len keys by simp
  qed
  then show hs': "headers_of d' = ?hs"
    by (rule headers_of_cong)
  have "k \<in> set ?hs"
    using i k by (intro key_in_headers [of "d ! i"]) simp_all
  then obtain hs1 hs2 where hs: "?hs = hs1 @ k # hs2"
    by (auto dest: split_list)
  have "distinct ?hs"
    unfolding headers_of_eq by (rule distinct_new_Set)
  with hs have notin: "k \<notin> set hs1" "k \<notin> set hs2"
    by simp_all
  have other: "tr_row P ?hs (d' ! j) = tr_row P ?hs (d ! j)" if "j < length d" "j \<noteq> i" for j
    using vals that by (auto intro: tr_row_cong)
  have before: "map (tr_row P ?hs) (take i d') = map (tr_row P ?hs) (take i d)"
  proof (rule nth_equalityI)
    show "length (map (tr_row P ?hs) (take i d')) = length (map (tr_row P ?hs) (take i d))"
      using len by simp
    fix j assume "j < length (map (tr_row P ?hs) (take i d'))"
    then have "j < i" "j < length d" using len i by simp_all
    then show "map (tr_row P ?hs) (take i d') ! j = map (tr_row P ?hs) (take i d) ! j"
      using len other [of j] by simp
  qed
  have after: "map (tr_row P ?hs) (drop (Suc i) d') = map (tr_row P ?hs) (drop (Suc i) d)"
  proof (rule nth_equalityI)
    show "length (map (tr_row P ?hs) (drop (Suc i) d')) = length (map (tr_row P ?hs) (drop (Suc i) d))"
      using len by simp
    fix j assume "j < length (map (tr_row P ?hs) (drop (Suc i) d'))"
    then have "Suc i + j < length d" "Suc i + j \<noteq> i" using len by simp_all
    then show "map (tr_row P ?hs) (drop (Suc i) d') ! j = map (tr_row P ?hs) (drop (Suc i) d) ! j"
      using len other [of "Suc i + j"] by simp
  qed
  have cell: "td_cell P (d' ! i) h = td_cell P (d ! i) h" if "h \<noteq> k" for h
    using vals i that by (auto intro: td_cell_cong)
  have left: "map (td_cell P (d' ! i)) hs1 = map (td_cell P (d ! i)) hs1"
    using notin(1) by (auto intro: cell)
  have right: "map (td_cell P (d' ! i)) hs2 = map (td_cell P (d ! i)) hs2"
    using notin(2) by (auto intro: cell)
  have row: "tr_row P ?hs r = ''<tr>'' @ concat (map (td_cell P r) hs1) @ td_cell P r k
      @ concat (map (td_cell P r) hs2) @ ''</tr>''" for r
    by (simp add: tr_row_fun hs)
  have split: "concat (map (tr_row P ?hs) e) = concat (map (tr_row P ?hs) (take i e))
      @ tr_row P ?hs (e ! i) @ concat (map (tr_row P ?hs) (drop (Suc i) e))"
    if "i < length e" for e
    using that by (rule concat_map_split [OF id_take_nth_drop])
  have out: "json2html P d =
            (table_open @ concat (map th_cell ?hs) @ ''</tr></thead><tbody>''
              @ concat (map (tr_row P ?hs) (take i d))
              @ ''<tr>'' @ concat (map (td_cell P (d ! i)) hs1))
            @ td_cell P (d ! i) k
            @ (concat (map (td_cell P (d ! i)) hs2) @ ''</tr>''
              @ concat (map (tr_row P ?hs) (drop (Suc i) d)) @ ''</tbody></table>'')"
    unfolding json2html_eq split [OF i] row by simp
  have i': "i < length d'" using len i by simp
  have out': "json2html P d' =
            (table_open @ concat (map th_cell ?hs) @ ''</tr></thead><tbody>''
              @ concat (map (tr_row P ?hs) (take i d))
              @ ''<tr>'' @ concat (map (td_cell P (d ! i)) hs1))
            @ td_cell P (d' ! i) k
            @ (concat (map (td_cell P (d ! i)) hs2) @ ''</tr>''
              @ concat (map (tr_row P ?hs) (drop (Suc i) d)) @ ''</tbody></table>'')"
    unfolding json2html_eq hs' split [OF i'] row before after left right by simp
  from hs notin out out'
  show "\<exists>hs1 hs2. ?hs = hs1 @ k # hs2 \<and> k \<notin> set hs1 \<and> k \<notin> set hs2
        \<and> json2html P d =
            (table_open @ concat (map th_cell ?hs) @ ''</tr></thead><tbody>''
              @ concat (map (tr_row P ?hs) (take i d))
              @ ''<tr>'' @ concat (map (td_cell P (d ! i)) hs1))
            @ td_cell P (d ! i) k
            @ (concat (map (td_cell P (d ! i)) hs2) @ ''</tr>''
              @ concat (map (tr_row P ?hs) (drop (Suc i) d)) @ ''</tbody></table>'')
        \<and> json2html P d' =
            (table_open @ concat (map th_cell ?hs) @ ''</tr></thead><tbody>''
              @ concat (map (tr_row P ?hs) (take i d))
              @ ''<tr>'' @ concat (map (td_cell P (d ! i)) hs1))
            @ td_cell P (d' ! i) k
            @ (concat (map (td_cell P (d ! i)) hs2) @ ''</tr>''
              @ concat (map (tr_row P ?hs) (drop (Suc i) d)) @ ''</tbody></table>'')"
    by blast
qed


theorem C10_locality_witness:
  "headers_of [[(''a'', JInt 1), (''b'', JInt 5)], [(''a'', JInt 3)]]
     = headers_of [[(''a'', JInt 1), (''b'', JInt 2)], [(''a'', JInt 3)]]
    \<and> (\<exists>hs1 hs2. headers_of [[(''a'', JInt 1), (''b'', JInt 2)], [(''a'', JInt 3)]] = hs1 @ ''b'' # hs2
        \<and> ''b'' \<notin> set hs1 \<and> ''b'' \<notin> set hs2
        \<and> json2html Object_prototype [[(''a'', JInt 1), (''b'', JInt 2)], [(''a'', JInt 3)]] =
            (table_open
              @ concat (map th_cell (headers_of [[(''a'', JInt 1), (''b'', JInt 2)], [(''a'', JInt 3)]]))
              @ ''</tr></thead><tbody>''
              @ concat (map (tr_row Object_prototype (headers_of [[(''a'', JInt 1), (''b'', JInt 2)], [(''a'', JInt 3)]]))
                  (take 0 [[(''a'', JInt 1), (''b'', JInt 2)], [(''a'', JInt 3)]]))
              @ ''<tr>''
              @ concat (map (td_cell Object_prototype ([[(''a'', JInt 1), (''b'', JInt 2)], [(''a'', JInt 3)]] ! 0)) hs1))
            @ td_cell Object_prototype ([[(''a'', JInt 1), (''b'', JInt 2)], [(''a'', JInt 3)]] ! 0) ''b''
            @ (concat (map (td_cell Object_prototype ([[(''a'', JInt 1), (''b'', JInt 2)], [(''a'', JInt 3)]] ! 0)) hs2)
              @ ''</tr>''
              @ concat (map (tr_row Object_prototype (headers_of [[(''a'', JInt 1), (''b'', JInt 2)], [(''a'', JInt 3)]]))
                  (drop (Suc 0) [[(''a'', JInt 1), (''b'', JInt 2)], [(''a'', JInt 3)]]))
              @ ''</tbody></table>'')
        \<and> json2html Object_prototype [[(''a'', JInt 1), (''b'', JInt 5)], [(''a'', JInt 3)]] =
            (table_open
              @ concat (map th_cell (headers_of [[(''a'', JInt 1), (''b'', JInt 2)], [(''a'', JInt 3)]]))
              @ ''</tr></thead><tbody>''
              @ concat (map (tr_row Object_prototype (headers_of [[(''a'', JInt 1), (''b'', JInt 2)], [(''a'', JInt 3)]]))
                  (take 0 [[(''a'', JInt 1), (''b'', JInt 2)], [(''a'', JInt 3)]]))
              @ ''<tr>''
              @ concat (map (td_cell Object_prototype ([[(''a'', JInt 1), (''b'', JInt 2)], [(''a'', JInt 3)]] ! 0)) hs1))
            @ td_cell Object_prototype ([[(''a'', JInt 1), (''b'', JInt 5)], [(''a'', JInt 3)]] ! 0) ''b''
            @ (concat (map (td_cell Object_prototype ([[(''a'', JInt 1), (''b'', JInt 2)], [(''a'', JInt 3)]] ! 0)) hs2)
              @ ''</tr>''
              @ concat (map (tr_row Object_prototype (headers_of [[(''a'', JInt 1), (''b'', JInt 2)], [(''a'', JInt 3)]]))
                  (drop (Suc 0) [[(''a'', JInt 1), (''b'', JInt 2)], [(''a'', JInt 3)]]))
              @ ''</tbody></table>''))"
  by (rule C10_locality) (simp_all add: All_less_Suc Object_keys_def)

end
